theory Spec2Isabelle
  imports Main "HOL-Library.Word"
begin

unbundle bit_operations_syntax

section \<open>C integers of CPU\_emulator.c\<close>

text \<open>
  The emulator is written for gcc/clang: \<open>short\<close> has 16 bits and \<open>int\<close> has 32.
  Every operator of the source works on \<open>int\<close>: a \<open>short\<close> operand is promoted by
  sign extension first, and a result stored in a \<open>short\<close> (an assignment, a
  \<open>return\<close> of a function declared \<open>short\<close>) is reduced modulo \<open>2^16\<close>. On a
  signed \<open>int\<close>, \<open>>>\<close> is the arithmetic shift and \<open><<\<close> shifts the bit pattern.
\<close>

type_synonym short = "16 word"
type_synonym cint = "32 word"

definition promote :: "short \<Rightarrow> cint" where
  "promote x = scast x"

definition to_short :: "cint \<Rightarrow> short" where
  "to_short x = ucast x"

definition shl :: "cint \<Rightarrow> nat \<Rightarrow> cint" where
  "shl x n = push_bit n x"

definition shr :: "cint \<Rightarrow> nat \<Rightarrow> cint" where
  "shr x n = signed_drop_bit n x"

section \<open>Opcodes and register numbers\<close>

definition MOV :: cint where "MOV = 0"
definition ADD :: cint where "ADD = 1"
definition SUB :: cint where "SUB = 2"
definition AND_op :: cint where "AND_op = 3"
definition OR_op :: cint where "OR_op = 4"
definition SL :: cint where "SL = 5"
definition SR :: cint where "SR = 6"
definition SRA :: cint where "SRA = 7"
definition LDL :: cint where "LDL = 8"
definition LDH :: cint where "LDH = 9"
definition CMP :: cint where "CMP = 10"
definition JE :: cint where "JE = 11"
definition JMP :: cint where "JMP = 12"
definition LD :: cint where "LD = 13"
definition ST :: cint where "ST = 14"
definition HLT :: cint where "HLT = 15"

definition REG0 :: short where "REG0 = 0"
definition REG1 :: short where "REG1 = 1"
definition REG2 :: short where "REG2 = 2"
definition REG3 :: short where "REG3 = 3"
definition REG4 :: short where "REG4 = 4"
definition REG5 :: short where "REG5 = 5"
definition REG6 :: short where "REG6 = 6"
definition REG7 :: short where "REG7 = 7"

section \<open>Encoders\<close>

text \<open>
  The encoders of lines 394 to 418, each as the source writes it. Only an immediate or
  an address is masked (\<open>& 0x00ff\<close>); a register number is shifted as it is.
\<close>

definition mov :: "short \<Rightarrow> short \<Rightarrow> short" where
  "mov ra rb = to_short (shl MOV 11 OR shl (promote ra) 8 OR shl (promote rb) 5)"

definition add :: "short \<Rightarrow> short \<Rightarrow> short" where
  "add ra rb = to_short (shl ADD 11 OR shl (promote ra) 8 OR shl (promote rb) 5)"

definition sub :: "short \<Rightarrow> short \<Rightarrow> short" where
  "sub ra rb = to_short (shl SUB 11 OR shl (promote ra) 8 OR shl (promote rb) 5)"

definition and_enc :: "short \<Rightarrow> short \<Rightarrow> short" where
  "and_enc ra rb = to_short (shl AND_op 11 OR shl (promote ra) 8 OR shl (promote rb) 5)"

definition or_enc :: "short \<Rightarrow> short \<Rightarrow> short" where
  "or_enc ra rb = to_short (shl OR_op 11 OR shl (promote ra) 8 OR shl (promote rb) 5)"

definition sl :: "short \<Rightarrow> short" where
  "sl ra = to_short (shl SL 11 OR shl (promote ra) 8)"

definition sr :: "short \<Rightarrow> short" where
  "sr ra = to_short (shl SR 11 OR shl (promote ra) 8)"

definition sra :: "short \<Rightarrow> short" where
  "sra ra = to_short (shl SRA 11 OR shl (promote ra) 8)"

definition ldl :: "short \<Rightarrow> short \<Rightarrow> short" where
  "ldl ra ival = to_short (shl LDL 11 OR shl (promote ra) 8 OR (promote ival AND 0x00ff))"

definition ldh :: "short \<Rightarrow> short \<Rightarrow> short" where
  "ldh ra ival = to_short (shl LDH 11 OR shl (promote ra) 8 OR (promote ival AND 0x00ff))"

definition cmp :: "short \<Rightarrow> short \<Rightarrow> short" where
  "cmp ra rb = to_short (shl CMP 11 OR shl (promote ra) 8 OR shl (promote rb) 5)"

definition je :: "short \<Rightarrow> short" where
  "je addr = to_short (shl JE 11 OR (promote addr AND 0x00ff))"

definition jmp :: "short \<Rightarrow> short" where
  "jmp addr = to_short (shl JMP 11 OR (promote addr AND 0x00ff))"

definition ld :: "short \<Rightarrow> short \<Rightarrow> short" where
  "ld ra addr = to_short (shl LD 11 OR shl (promote ra) 8 OR (promote addr AND 0x00ff))"

definition st :: "short \<Rightarrow> short \<Rightarrow> short" where
  "st ra addr = to_short (shl ST 11 OR shl (promote ra) 8 OR (promote addr AND 0x00ff))"

definition hlt :: short where
  "hlt = to_short (shl HLT 11)"

section \<open>Decoders\<close>

definition op_code :: "short \<Rightarrow> short" where
  "op_code ir = to_short (shr (promote ir) 11)"

definition op_regA :: "short \<Rightarrow> short" where
  "op_regA ir = to_short (shr (promote ir) 8 AND 0x0007)"

definition op_regB :: "short \<Rightarrow> short" where
  "op_regB ir = to_short (shr (promote ir) 5 AND 0x0007)"

definition op_data :: "short \<Rightarrow> short" where
  "op_data ir = to_short (promote ir AND 0x00ff)"

definition op_addr :: "short \<Rightarrow> short" where
  "op_addr ir = to_short (promote ir AND 0x00ff)"

section \<open>Machine state\<close>

text \<open>
  The arrays \<open>reg[8]\<close>, \<open>rom[256]\<close> and \<open>ram[256]\<close> are globals of the source;
  \<open>pc\<close>, \<open>ir\<close> and \<open>flag_eq\<close> are locals of \<open>main\<close>. The interpreter's state is
  their record. The \<open>printf\<close> calls only write the trace and are left out.
\<close>

record machine =
  reg :: "short list"
  rom :: "short list"
  ram :: "short list"
  pc :: short
  ir :: short
  flag_eq :: short

text \<open>
  C does not check an array index. An index outside the array is undefined behaviour;
  the model makes it a value, so that a claim about indices can be stated: every access
  goes through \<open>rd\<close> or \<open>wr\<close>, which return the fault naming the array when the
  (promoted) index is outside \<open>0 .. length - 1\<close>.
\<close>

datatype fault = RegIndex | RomIndex | RamIndex

definition in_bounds :: "'a list \<Rightarrow> short \<Rightarrow> bool" where
  "in_bounds xs i \<longleftrightarrow> 0 \<le> sint i \<and> sint i < int (length xs)"

definition rd :: "fault \<Rightarrow> short list \<Rightarrow> short \<Rightarrow> fault + short" where
  "rd f xs i = (if in_bounds xs i then Inr (xs ! nat (sint i)) else Inl f)"

definition wr :: "fault \<Rightarrow> short list \<Rightarrow> short \<Rightarrow> short \<Rightarrow> fault + short list" where
  "wr f xs i v = (if in_bounds xs i then Inr (xs[nat (sint i) := v]) else Inl f)"

definition bind :: "fault + 'a \<Rightarrow> ('a \<Rightarrow> fault + 'b) \<Rightarrow> fault + 'b" where
  "bind m k = (case m of Inl f \<Rightarrow> Inl f | Inr x \<Rightarrow> k x)"

definition set_reg :: "machine \<Rightarrow> short \<Rightarrow> short \<Rightarrow> fault + machine" where
  "set_reg s i v = bind (wr RegIndex (reg s) i v) (\<lambda>r. Inr (s\<lparr>reg := r\<rparr>))"

definition get_reg :: "machine \<Rightarrow> short \<Rightarrow> fault + short" where
  "get_reg s i = rd RegIndex (reg s) i"

section \<open>The interpreter\<close>

text \<open>
  The \<open>switch\<close> of lines 171 to 318, on the promoted value of \<open>op_code(ir)\<close>. The
  right-hand side of each assignment is computed on the promoted operands and stored as
  a \<open>short\<close>.
\<close>

definition execute :: "machine \<Rightarrow> fault + machine" where
  "execute s =
    (let c = promote (op_code (ir s)) in
     if c = MOV then
       bind (get_reg s (op_regB (ir s))) (\<lambda>b. set_reg s (op_regA (ir s)) b)
     else if c = ADD then
       bind (get_reg s (op_regA (ir s))) (\<lambda>a.
       bind (get_reg s (op_regB (ir s))) (\<lambda>b.
       set_reg s (op_regA (ir s)) (to_short (promote a + promote b))))
     else if c = SUB then
       bind (get_reg s (op_regA (ir s))) (\<lambda>a.
       bind (get_reg s (op_regB (ir s))) (\<lambda>b.
       set_reg s (op_regA (ir s)) (to_short (promote a - promote b))))
     else if c = AND_op then
       bind (get_reg s (op_regA (ir s))) (\<lambda>a.
       bind (get_reg s (op_regB (ir s))) (\<lambda>b.
       set_reg s (op_regA (ir s)) (to_short (promote a AND promote b))))
     else if c = OR_op then
       bind (get_reg s (op_regA (ir s))) (\<lambda>a.
       bind (get_reg s (op_regB (ir s))) (\<lambda>b.
       set_reg s (op_regA (ir s)) (to_short (promote a OR promote b))))
     else if c = SL then
       bind (get_reg s (op_regA (ir s))) (\<lambda>a.
       set_reg s (op_regA (ir s)) (to_short (shl (promote a) 1)))
     else if c = SR then
       bind (get_reg s (op_regA (ir s))) (\<lambda>a.
       set_reg s (op_regA (ir s)) (to_short (shr (promote a) 1)))
     else if c = SRA then
       bind (get_reg s (op_regA (ir s))) (\<lambda>a.
       set_reg s (op_regA (ir s)) (to_short ((promote a AND 0x8000) OR shr (promote a) 1)))
     else if c = LDL then
       bind (get_reg s (op_regA (ir s))) (\<lambda>a.
       set_reg s (op_regA (ir s))
         (to_short ((promote a AND 0xff00) OR (promote (op_data (ir s)) AND 0x00ff))))
     else if c = LDH then
       bind (get_reg s (op_regA (ir s))) (\<lambda>a.
       set_reg s (op_regA (ir s))
         (to_short (shl (promote (op_data (ir s))) 8 OR (promote a AND 0x00ff))))
     else if c = CMP then
       bind (get_reg s (op_regA (ir s))) (\<lambda>a.
       bind (get_reg s (op_regB (ir s))) (\<lambda>b.
       Inr (if promote a = promote b then s\<lparr>flag_eq := 1\<rparr> else s\<lparr>flag_eq := 0\<rparr>)))
     else if c = JE then
       Inr (if promote (flag_eq s) = 1 then s\<lparr>pc := op_addr (ir s)\<rparr> else s)
     else if c = JMP then Inr (s\<lparr>pc := op_addr (ir s)\<rparr>)
     else if c = LD then
       bind (rd RamIndex (ram s) (op_addr (ir s))) (\<lambda>v. set_reg s (op_regA (ir s)) v)
     else if c = ST then
       bind (get_reg s (op_regA (ir s))) (\<lambda>a.
       bind (wr RamIndex (ram s) (op_addr (ir s)) a) (\<lambda>m. Inr (s\<lparr>ram := m\<rparr>)))
     else Inr s)"

text \<open>
  One pass through the body of the \<open>do\<close> loop: fetch \<open>ir = rom[pc]\<close>, advance
  \<open>pc = pc + 1\<close> (an \<open>int\<close> addition stored as a \<open>short\<close>), then the \<open>switch\<close>.
\<close>

definition cycle :: "machine \<Rightarrow> fault + machine" where
  "cycle s =
     bind (rd RomIndex (rom s) (pc s)) (\<lambda>w.
     execute (s\<lparr>ir := w, pc := to_short (promote (pc s) + 1)\<rparr>))"

text \<open>
  The loop \<open>do { ... } while (op_code(ir) != HLT)\<close>. It may run forever, so the run is
  a partial function: \<open>None\<close> is a run that never leaves the loop, \<open>Some (Inl f)\<close>
  one that reaches an access outside an array, \<open>Some (Inr s)\<close> one that leaves the
  loop in state \<open>s\<close>.
\<close>

partial_function (option) run :: "machine \<Rightarrow> (fault + machine) option" where
  "run s =
     (case cycle s of
        Inl f \<Rightarrow> Some (Inl f)
      | Inr s' \<Rightarrow> if promote (op_code (ir s')) \<noteq> HLT then run s' else Some (Inr s'))"

declare run.simps [code]

text \<open>
  The globals are zero when \<open>main\<close> starts; \<open>ir\<close> is not initialised and is zero here
  (the first fetch overwrites it before any use).
\<close>

definition power_on :: machine where
  "power_on = \<lparr>reg = replicate 8 0, rom = replicate 256 0, ram = replicate 256 0,
               pc = 0, ir = 0, flag_eq = 0\<rparr>"

definition assembler :: "machine \<Rightarrow> machine" where
  "assembler s = s\<lparr>rom := (rom s)
     [0 := ldh REG0 0,
      1 := ldl REG0 0,
      2 := ldh REG1 0,
      3 := ldl REG1 1,
      4 := ldh REG2 0,
      5 := ldl REG2 0,
      6 := ldh REG3 0,
      7 := ldl REG3 10,
      8 := add REG2 REG1,
      9 := add REG0 REG2,
      10 := st REG0 64,
      11 := cmp REG2 REG3,
      12 := je 14,
      13 := jmp 8,
      14 := hlt]\<rparr>"

definition main :: "(fault + machine) option" where
  "main = run ((assembler power_on)\<lparr>pc := 0, flag_eq := 0\<rparr>)"

text \<open>The sizes of the three arrays, as declared at lines 76 to 78.\<close>

definition wf :: "machine \<Rightarrow> bool" where
  "wf s \<longleftrightarrow> length (reg s) = 8 \<and> length (rom s) = 256 \<and> length (ram s) = 256"

text \<open>
  \<open>load ws\<close> is the start of \<open>main\<close> with another loader in place of \<open>assembler\<close>:
  the words \<open>ws\<close> (at most 256) are written to \<open>rom[0]\<close>, \<open>rom[1]\<close>, ... of the zeroed
  machine, the rest of the ROM stays zero, and \<open>pc\<close> and \<open>flag_eq\<close> are reset.
\<close>

definition load :: "short list \<Rightarrow> machine" where
  "load ws = power_on\<lparr>rom := take 256 ws @ replicate (256 - length ws) 0,
                       pc := 0, flag_eq := 0\<rparr>"

text \<open>
  The encoders differ in the opcode and in the operands that are present. \<open>enc_rr\<close>
  and \<open>enc_ri\<close> are their two layouts with the opcode as a parameter; the proofs go
  through them (\<open>encoder_layout\<close> below gives each encoder as an instance).
\<close>

definition enc_rr :: "cint \<Rightarrow> short \<Rightarrow> short \<Rightarrow> short" where
  "enc_rr opc ra rb = to_short (shl opc 11 OR shl (promote ra) 8 OR shl (promote rb) 5)"

definition enc_ri :: "cint \<Rightarrow> short \<Rightarrow> short \<Rightarrow> short" where
  "enc_ri opc ra ival = to_short (shl opc 11 OR shl (promote ra) 8 OR (promote ival AND 0x00ff))"

section \<open>The sixteen opcode values as one fact\<close>

lemmas opcode_defs = MOV_def ADD_def SUB_def AND_op_def OR_op_def SL_def SR_def SRA_def
  LDL_def LDH_def CMP_def JE_def JMP_def LD_def ST_def HLT_def

section \<open>The codec on 16-bit words\<close>

text \<open>
  Promotion, the operators on \<open>int\<close> and the conversion back to \<open>short\<close> are
  bitwise here, so every encoder and decoder has an equal expression on 16-bit words.
\<close>

lemma to_short_promote: "to_short (promote x) = x"
  unfolding to_short_def promote_def by (rule bit_word_eqI) (auto simp: bit_simps)

lemma and7: "(x::'a::len word) AND 7 = take_bit 3 x"
  using take_bit_eq_mask[of 3 x] by (simp add: mask_eq_exp_minus_1)

lemma and255: "(x::'a::len word) AND 255 = take_bit 8 x"
  using take_bit_eq_mask[of 8 x] by (simp add: mask_eq_exp_minus_1)

lemma enc_rr_eq: "enc_rr opc ra rb = push_bit 11 (to_short opc) OR push_bit 8 ra OR push_bit 5 rb"
  unfolding enc_rr_def to_short_def promote_def shl_def
  by (rule bit_word_eqI) (auto simp: bit_simps)

lemma enc_ri_eq: "enc_ri opc ra v = push_bit 11 (to_short opc) OR push_bit 8 ra OR take_bit 8 v"
  unfolding enc_ri_def to_short_def promote_def shl_def and255
  by (rule bit_word_eqI) (auto simp: bit_simps)

lemma op_code_eq: "op_code w = signed_drop_bit 11 w"
  unfolding op_code_def to_short_def promote_def shr_def
  by (rule bit_word_eqI) (auto simp: bit_simps)

lemma op_regA_eq: "op_regA w = take_bit 3 (drop_bit 8 w)"
  unfolding op_regA_def to_short_def promote_def shr_def and7
  by (rule bit_word_eqI) (auto simp: bit_simps)

lemma op_regB_eq: "op_regB w = take_bit 3 (drop_bit 5 w)"
  unfolding op_regB_def to_short_def promote_def shr_def and7
  by (rule bit_word_eqI) (auto simp: bit_simps)

lemma op_data_eq: "op_data w = take_bit 8 w"
  unfolding op_data_def to_short_def promote_def and255
  by (rule bit_word_eqI) (auto simp: bit_simps)

lemma op_addr_eq: "op_addr w = take_bit 8 w"
  unfolding op_addr_def to_short_def promote_def and255
  by (rule bit_word_eqI) (auto simp: bit_simps)

lemma rr_code:
  "signed_drop_bit 11
     (push_bit 11 (take_bit 4 k) OR push_bit 8 (take_bit 3 ra) OR push_bit 5 (take_bit 3 rb)) =
   take_bit 4 (k::short)"
  by (rule bit_word_eqI) (auto simp: bit_simps)

lemma rr_regA:
  "take_bit 3 (drop_bit 8 (push_bit 11 k OR push_bit 8 ra OR push_bit 5 (take_bit 3 rb))) =
   take_bit 3 (ra::short)"
  by (rule bit_word_eqI) (auto simp: bit_simps)

lemma rr_regB:
  "take_bit 3 (drop_bit 5 (push_bit 11 k OR push_bit 8 ra OR push_bit 5 rb)) =
   take_bit 3 (rb::short)"
  by (rule bit_word_eqI) (auto simp: bit_simps)

lemma ri_code:
  "signed_drop_bit 11
     (push_bit 11 (take_bit 4 k) OR push_bit 8 (take_bit 3 ra) OR take_bit 8 v) =
   take_bit 4 (k::short)"
  by (rule bit_word_eqI) (auto simp: bit_simps)

lemma ri_regA:
  "take_bit 3 (drop_bit 8 (push_bit 11 k OR push_bit 8 ra OR take_bit 8 v)) =
   take_bit 3 (ra::short)"
  by (rule bit_word_eqI) (auto simp: bit_simps)

lemma ri_low: "take_bit 8 (push_bit 11 k OR push_bit 8 ra OR take_bit 8 v) = take_bit 8 (v::short)"
  by (rule bit_word_eqI) (auto simp: bit_simps)

lemma le7: "(x::short) \<le> 7 \<Longrightarrow> take_bit 3 x = x"
  using mask_eq_iff [of x 3]
  by (simp add: take_bit_eq_mask word_le_def mask_eq_exp_minus_1 [where ?'a = nat])

lemma le255: "(x::short) \<le> 255 \<Longrightarrow> take_bit 8 x = x"
  using mask_eq_iff [of x 8]
  by (simp add: take_bit_eq_mask word_le_def mask_eq_exp_minus_1 [where ?'a = nat])

lemma le15c: "(x::cint) \<le> 15 \<Longrightarrow> take_bit 4 x = x"
  using mask_eq_iff [of x 4]
  by (simp add: take_bit_eq_mask word_le_def mask_eq_exp_minus_1 [where ?'a = nat])

lemma to_short_take_bit: "to_short (take_bit n x) = take_bit n (to_short x)"
  unfolding to_short_def by (rule bit_word_eqI) (auto simp: bit_simps)

lemma promote_take_bit_4: "promote (take_bit 4 (to_short x)) = take_bit 4 x"
  unfolding to_short_def promote_def by (rule bit_word_eqI) (auto simp: bit_simps)

lemma rt_rr:
  assumes "c \<le> 15" "ra \<le> 7" "rb \<le> 7"
  shows "promote (op_code (enc_rr c ra rb)) = c" "op_regA (enc_rr c ra rb) = ra"
    "op_regB (enc_rr c ra rb) = rb"
proof -
  have c: "take_bit 4 c = c" and ra: "take_bit 3 ra = ra" and rb: "take_bit 3 rb = rb"
    using assms by (simp_all add: le15c le7)
  have "op_code (enc_rr (take_bit 4 c) (take_bit 3 ra) (take_bit 3 rb)) = take_bit 4 (to_short c)"
    by (simp only: op_code_eq enc_rr_eq to_short_take_bit rr_code)
  then show "promote (op_code (enc_rr c ra rb)) = c"
    using promote_take_bit_4 [of c] by (simp only: c ra rb)
  have "op_regA (enc_rr c ra (take_bit 3 rb)) = take_bit 3 ra"
    by (simp only: op_regA_eq enc_rr_eq rr_regA)
  then show "op_regA (enc_rr c ra rb) = ra" by (simp only: ra rb)
  have "op_regB (enc_rr c ra rb) = take_bit 3 rb"
    by (simp only: op_regB_eq enc_rr_eq rr_regB)
  then show "op_regB (enc_rr c ra rb) = rb" by (simp only: rb)
qed

lemma rt_ri:
  assumes "c \<le> 15" "ra \<le> 7"
  shows "promote (op_code (enc_ri c ra v)) = c" "op_regA (enc_ri c ra v) = ra"
    "op_data (enc_ri c ra v) = take_bit 8 v" "op_addr (enc_ri c ra v) = take_bit 8 v"
proof -
  have c: "take_bit 4 c = c" and ra: "take_bit 3 ra = ra"
    using assms by (simp_all add: le15c le7)
  have "op_code (enc_ri (take_bit 4 c) (take_bit 3 ra) v) = take_bit 4 (to_short c)"
    by (simp only: op_code_eq enc_ri_eq to_short_take_bit ri_code)
  then show "promote (op_code (enc_ri c ra v)) = c"
    using promote_take_bit_4 [of c] by (simp only: c ra)
  have "op_regA (enc_ri c ra v) = take_bit 3 ra"
    by (simp only: op_regA_eq enc_ri_eq ri_regA)
  then show "op_regA (enc_ri c ra v) = ra" by (simp only: ra)
  show "op_data (enc_ri c ra v) = take_bit 8 v"
    by (simp only: op_data_eq enc_ri_eq ri_low)
  show "op_addr (enc_ri c ra v) = take_bit 8 v"
    by (simp only: op_addr_eq enc_ri_eq ri_low)
qed

lemma opcode_le15:
  "MOV \<le> 15" "ADD \<le> 15" "SUB \<le> 15" "AND_op \<le> 15" "OR_op \<le> 15" "SL \<le> 15" "SR \<le> 15"
  "SRA \<le> 15" "LDL \<le> 15" "LDH \<le> 15" "CMP \<le> 15" "JE \<le> 15" "JMP \<le> 15" "LD \<le> 15"
  "ST \<le> 15" "HLT \<le> 15"
  by (simp_all add: opcode_defs)

lemma encoder_layout:
  "mov ra rb = enc_rr MOV ra rb" "add ra rb = enc_rr ADD ra rb" "sub ra rb = enc_rr SUB ra rb"
  "and_enc ra rb = enc_rr AND_op ra rb" "or_enc ra rb = enc_rr OR_op ra rb"
  "cmp ra rb = enc_rr CMP ra rb"
  "sl ra = enc_rr SL ra 0" "sr ra = enc_rr SR ra 0" "sra ra = enc_rr SRA ra 0"
  "ldl ra v = enc_ri LDL ra v" "ldh ra v = enc_ri LDH ra v"
  "ld ra v = enc_ri LD ra v" "st ra v = enc_ri ST ra v"
  "je v = enc_ri JE 0 v" "jmp v = enc_ri JMP 0 v"
  "hlt = enc_rr HLT 0 0"
  by (simp_all add: mov_def add_def sub_def and_enc_def or_enc_def cmp_def sl_def sr_def
      sra_def ldl_def ldh_def ld_def st_def je_def jmp_def hlt_def enc_rr_def enc_ri_def
      promote_def shl_def)

section \<open>The interpreter on a well-formed machine\<close>

text \<open>
  The decoders mask the register numbers to three bits and the address to eight, so on
  a machine whose arrays have the declared sizes the only access that can leave its
  array is the fetch \<open>rom[pc]\<close>.
\<close>

lemma bind_simps [simp]: "bind (Inr x) k = k x" "bind (Inl f) k = Inl f"
  by (simp_all add: bind_def)

lemma sint_take_bit_short:
  "n \<le> 15 \<Longrightarrow> sint (take_bit n (x::short)) = take_bit n (uint x)"
  by (simp add: sint_uint unsigned_take_bit_eq signed_take_bit_take_bit)

lemma regA_range: "0 \<le> sint (op_regA w) \<and> sint (op_regA w) < 8"
  using take_bit_int_less_exp [of 3 "uint (drop_bit 8 w)"]
  by (simp add: op_regA_eq sint_take_bit_short)

lemma regB_range: "0 \<le> sint (op_regB w) \<and> sint (op_regB w) < 8"
  using take_bit_int_less_exp [of 3 "uint (drop_bit 5 w)"]
  by (simp add: op_regB_eq sint_take_bit_short)

lemma addr_range: "0 \<le> sint (op_addr w) \<and> sint (op_addr w) < 256"
  using take_bit_int_less_exp [of 8 "uint w"]
  by (simp add: op_addr_eq sint_take_bit_short)

lemma get_reg_A: "wf s \<Longrightarrow> get_reg s (op_regA w) = Inr (reg s ! nat (sint (op_regA w)))"
  using regA_range [of w] by (simp add: get_reg_def rd_def in_bounds_def wf_def)

lemma get_reg_B: "wf s \<Longrightarrow> get_reg s (op_regB w) = Inr (reg s ! nat (sint (op_regB w)))"
  using regB_range [of w] by (simp add: get_reg_def rd_def in_bounds_def wf_def)

lemma set_reg_A:
  "wf s \<Longrightarrow> set_reg s (op_regA w) v = Inr (s\<lparr>reg := (reg s)[nat (sint (op_regA w)) := v]\<rparr>)"
  using regA_range [of w] by (simp add: set_reg_def wr_def in_bounds_def wf_def)

lemma rd_ram: "wf s \<Longrightarrow> rd RamIndex (ram s) (op_addr w) = Inr (ram s ! nat (sint (op_addr w)))"
  using addr_range [of w] by (simp add: rd_def in_bounds_def wf_def)

lemma wr_ram:
  "wf s \<Longrightarrow> wr RamIndex (ram s) (op_addr w) v = Inr ((ram s)[nat (sint (op_addr w)) := v])"
  using addr_range [of w] by (simp add: wr_def in_bounds_def wf_def)

lemmas access_simps = get_reg_A get_reg_B set_reg_A rd_ram wr_ram

lemma execute_ok: "wf s \<Longrightarrow> \<exists>s'. execute s = Inr s'"
  by (simp add: execute_def Let_def access_simps)

lemma execute_frame:
  "wf s \<Longrightarrow> execute s = Inr s' \<Longrightarrow> rom s' = rom s \<and> ir s' = ir s \<and> wf s'"
  by (auto simp: execute_def Let_def access_simps wf_def split: if_splits)

lemma promote_eq_iff: "promote a = promote b \<longleftrightarrow> a = b"
  by (metis to_short_promote)

lemma promote_1: "promote 1 = 1" "promote 0 = 0"
  by (simp_all add: promote_def)

lemma flag_test: "promote f = 1 \<longleftrightarrow> f = 1"
  using promote_eq_iff [of f 1] by (simp add: promote_1)

lemma to_short_add: "to_short (a + b) = to_short a + to_short b"
proof -
  have "to_short (a + b) = word_of_int (uint (a + b))"
    by (simp only: to_short_def ucast_eq)
  also have "\<dots> = word_of_int (take_bit LENGTH(32) (uint a + uint b))"
    by (simp only: uint_word_arith_bintrs)
  also have "\<dots> = (word_of_int (uint a + uint b) :: short)"
    by (rule word_of_int_eq_iff [THEN iffD2]) simp
  also have "\<dots> = to_short a + to_short b"
    by (simp add: to_short_def)
  finally show ?thesis .
qed

lemma to_short_1: "to_short 1 = 1"
  by (simp add: to_short_def)

lemma pc_advance: "to_short (promote p + 1) = p + 1"
  by (simp add: to_short_add to_short_promote to_short_1)

lemma execute_flag:
  assumes "wf s" and "execute s = Inr s'"
  shows "flag_eq s' =
    (if promote (op_code (ir s)) = CMP
     then (if reg s ! nat (sint (op_regA (ir s))) = reg s ! nat (sint (op_regB (ir s)))
           then 1 else 0)
     else flag_eq s)"
  using assms
  by (auto simp: execute_def Let_def access_simps opcode_defs promote_eq_iff
      split: if_splits)

lemma execute_pc:
  assumes "wf s" and "execute s = Inr s'"
  shows "pc s' =
    (if promote (op_code (ir s)) = JMP \<or> promote (op_code (ir s)) = JE \<and> flag_eq s = 1
     then op_addr (ir s) else pc s)"
  using assms
  by (auto simp: execute_def Let_def access_simps opcode_defs flag_test promote_1
      split: if_splits)

lemma cycle_fetch:
  "in_bounds (rom s) (pc s) \<Longrightarrow>
   cycle s = execute (s\<lparr>ir := rom s ! nat (sint (pc s)), pc := pc s + 1\<rparr>)"
  by (simp add: cycle_def rd_def pc_advance)

lemma cycle_fault: "\<not> in_bounds (rom s) (pc s) \<Longrightarrow> cycle s = Inl RomIndex"
  by (simp add: cycle_def rd_def)

lemma wf_fetch: "wf (s\<lparr>ir := w, pc := p\<rparr>) = wf s"
  by (simp add: wf_def)

lemma cycle_Inr:
  assumes "wf s" and "cycle s = Inr s'"
  shows "in_bounds (rom s) (pc s)" and "ir s' = rom s ! nat (sint (pc s))"
    and "rom s' = rom s" and "wf s'"
proof -
  show b: "in_bounds (rom s) (pc s)"
    using assms(2) cycle_fault [of s] by auto
  let ?t = "s\<lparr>ir := rom s ! nat (sint (pc s)), pc := pc s + 1\<rparr>"
  have e: "execute ?t = Inr s'" using assms(2) cycle_fetch [OF b] by simp
  have w: "wf ?t" using assms(1) by (simp add: wf_fetch)
  from execute_frame [OF w e]
  show "ir s' = rom s ! nat (sint (pc s))" and "rom s' = rom s" and "wf s'" by simp_all
qed

lemma cycle_Inl:
  assumes "wf s" and "cycle s = Inl f"
  shows "f = RomIndex \<and> \<not> in_bounds (rom s) (pc s)"
proof (cases "in_bounds (rom s) (pc s)")
  case True
  have "wf (s\<lparr>ir := rom s ! nat (sint (pc s)), pc := pc s + 1\<rparr>)"
    using assms(1) by (simp add: wf_fetch)
  from execute_ok [OF this] show ?thesis
    using assms(2) cycle_fetch [OF True] by auto
next
  case False
  then show ?thesis using assms(2) cycle_fault [of s] by simp
qed

lemma cycle_flag:
  assumes "wf s" and "cycle s = Inr s'"
  shows "flag_eq s' =
    (if promote (op_code (ir s')) = CMP
     then (if reg s ! nat (sint (op_regA (ir s'))) = reg s ! nat (sint (op_regB (ir s')))
           then 1 else 0)
     else flag_eq s)"
proof -
  note c = cycle_Inr [OF assms]
  let ?t = "s\<lparr>ir := rom s ! nat (sint (pc s)), pc := pc s + 1\<rparr>"
  have e: "execute ?t = Inr s'" using assms(2) cycle_fetch [OF c(1)] by simp
  have w: "wf ?t" using assms(1) by (simp add: wf_fetch)
  from execute_flag [OF w e] show ?thesis by (simp add: c(2))
qed

lemma cycle_pc:
  assumes "wf s" and "cycle s = Inr s'"
  shows "pc s' =
    (if promote (op_code (ir s')) = JMP \<or> promote (op_code (ir s')) = JE \<and> flag_eq s = 1
     then op_addr (ir s') else pc s + 1)"
proof -
  note c = cycle_Inr [OF assms]
  let ?t = "s\<lparr>ir := rom s ! nat (sint (pc s)), pc := pc s + 1\<rparr>"
  have e: "execute ?t = Inr s'" using assms(2) cycle_fetch [OF c(1)] by simp
  have w: "wf ?t" using assms(1) by (simp add: wf_fetch)
  from execute_pc [OF w e] show ?thesis by (simp add: c(2))
qed

lemma sint_pc_advance:
  assumes "0 \<le> sint (p::short)" and "sint p < 256"
  shows "sint (p + 1) = sint p + 1"
proof -
  have "sint (p + 1) = signed_take_bit 15 (sint p + 1)"
    by (simp add: sint_word_ariths)
  also have "\<dots> = sint p + 1"
    using assms by (simp add: signed_take_bit_int_eq_self)
  finally show ?thesis .
qed

lemma wf_rom_bounds: "wf s \<Longrightarrow> in_bounds (rom s) p \<longleftrightarrow> 0 \<le> sint p \<and> sint p < 256"
  by (simp add: in_bounds_def wf_def)

lemma run_result:
  "run s = Some r \<Longrightarrow> wf s \<Longrightarrow>
     (case r of
        Inl f \<Rightarrow> f = RomIndex
      | Inr t \<Rightarrow> wf t \<and> rom t = rom s \<and> promote (op_code (ir t)) = HLT \<and>
          (\<exists>p. 0 \<le> p \<and> p < 256 \<and> ir t = rom s ! nat p \<and> sint (pc t) = p + 1))"
proof (induction rule: run.raw_induct [rotated 1, consumes 1])
  case (1 run' s r)
  show ?case
  proof (cases "cycle s")
    case (Inl f)
    with 1(2) have "r = Inl f" by simp
    then show ?thesis
      using cycle_Inl [OF 1(3) Inl] by simp
  next
    case (Inr s')
    note c = cycle_Inr [OF 1(3) Inr]
    show ?thesis
    proof (cases "promote (op_code (ir s')) = HLT")
      case False
      with 1(2) Inr have "run' s' = Some r" by simp
      from 1(1) [OF this c(4)] show ?thesis
        by (simp add: c(3) split: sum.splits)
    next
      case True
      with 1(2) Inr have r: "r = Inr s'" by simp
      have b: "0 \<le> sint (pc s)" "sint (pc s) < 256"
        using c(1) wf_rom_bounds [OF 1(3), of "pc s"] by simp_all
      have "pc s' = pc s + 1"
        using cycle_pc [OF 1(3) Inr] True by (simp add: opcode_defs)
      then have "sint (pc s') = sint (pc s) + 1"
        using sint_pc_advance [OF b] by simp
      with b c True show ?thesis
        unfolding r by auto
    qed
  qed
qed

lemma to_short_shr: "to_short (shr (promote x) n) = signed_drop_bit n x"
  unfolding to_short_def shr_def promote_def by (rule bit_word_eqI) (auto simp: bit_simps)

lemma sra_value:
  "to_short ((promote a AND 0x8000) OR shr (promote a) 1) = (a AND 0x8000) OR drop_bit 1 a"
proof -
  have c: "(0x8000::cint) = 2 ^ 15" and d: "(0x8000::short) = 2 ^ 15" by simp_all
  have "bit (to_short ((promote a AND 2 ^ 15) OR shr (promote a) 1)) n =
        bit ((a AND 2 ^ 15) OR drop_bit 1 a) n" if "n < 16" for n
  proof (cases "n = 15")
    case True
    then show ?thesis
      by (auto simp: to_short_def shr_def promote_def bit_simps dest: bit_imp_le_length)
  next
    case False
    with that have "n < 15" by simp
    then show ?thesis
      by (auto simp: to_short_def shr_def promote_def bit_simps)
  qed
  then show ?thesis
    unfolding c d by (intro bit_word_eqI) simp
qed

lemma execute_SR:
  assumes "wf s" and "promote (op_code (ir s)) = SR"
  shows "execute s = Inr (s\<lparr>reg := (reg s)[nat (sint (op_regA (ir s))) :=
           signed_drop_bit 1 (reg s ! nat (sint (op_regA (ir s))))]\<rparr>)"
  using assms by (simp add: execute_def Let_def access_simps opcode_defs to_short_shr)

lemma execute_SRA:
  assumes "wf s" and "promote (op_code (ir s)) = SRA"
  shows "execute s = Inr (s\<lparr>reg := (reg s)[nat (sint (op_regA (ir s))) :=
           (reg s ! nat (sint (op_regA (ir s))) AND 0x8000) OR
           drop_bit 1 (reg s ! nat (sint (op_regA (ir s))))]\<rparr>)"
  using assms
  by (simp add: execute_def Let_def access_simps opcode_defs sra_value del: One_nat_def)

lemma field_ge_16:
  assumes "16 \<le> drop_bit 11 (w::short)"
  shows "bit w 15"
proof (rule ccontr)
  assume n: "\<not> bit w 15"
  have h: "\<not> bit w (11 + k)" if "4 \<le> k" for k
  proof (cases "k = 4")
    case True
    with n show ?thesis by simp
  next
    case False
    with that have "16 \<le> 11 + k" by simp
    then show ?thesis using bit_imp_le_length [of w "11 + k"] by auto
  qed
  have "drop_bit 11 w = take_bit 4 (drop_bit 11 w)"
  proof (rule bit_word_eqI)
    fix n
    show "bit (drop_bit 11 w) n = bit (take_bit 4 (drop_bit 11 w)) n"
      using h [of n] by (cases "n < 4") (auto simp: bit_simps)
  qed
  then have "uint (drop_bit 11 w) = take_bit 4 (uint (drop_bit 11 w))"
    by (metis unsigned_take_bit_eq)
  then have "uint (drop_bit 11 w) < 16"
    using take_bit_int_less_exp [of 4 "uint (drop_bit 11 w)"] by simp
  with assms show False by (simp add: word_le_def)
qed

lemma unknown_opcode:
  assumes "bit (w::short) 15" and "c \<le> 15"
  shows "promote (op_code w) \<noteq> c"
proof
  assume e: "promote (op_code w) = c"
  have "bit (promote (op_code w)) 4"
    using assms(1) by (simp add: op_code_eq promote_def bit_simps)
  moreover have "\<not> bit (take_bit 4 c) 4" by (simp add: bit_simps)
  ultimately show False using le15c [OF assms(2)] e by simp
qed

lemma wf_load: "wf (load ws)"
  by (simp add: wf_def load_def power_on_def)

lemma cycle_pc_range:
  assumes "wf s" and "cycle s = Inr s'"
  shows "0 \<le> sint (pc s') \<and> sint (pc s') \<le> 256"
proof -
  have b: "0 \<le> sint (pc s)" "sint (pc s) < 256"
    using cycle_Inr(1) [OF assms] wf_rom_bounds [OF assms(1), of "pc s"] by simp_all
  show ?thesis
    using cycle_pc [OF assms] sint_pc_advance [OF b] b addr_range [of "ir s'"]
    by (auto split: if_splits)
qed

lemma run_no_fault: "wf s \<Longrightarrow> run s = Some (Inl f) \<Longrightarrow> f = RomIndex"
  using run_result [of s "Inl f"] by simp

lemma execute_default:
  assumes "bit (ir s) 15"
  shows "execute s = Inr s"
proof -
  have "promote (op_code (ir s)) \<noteq> c" if "c \<le> 15" for c
    using assms that by (rule unknown_opcode)
  from this [OF opcode_le15(1)] this [OF opcode_le15(2)] this [OF opcode_le15(3)]
    this [OF opcode_le15(4)] this [OF opcode_le15(5)] this [OF opcode_le15(6)]
    this [OF opcode_le15(7)] this [OF opcode_le15(8)] this [OF opcode_le15(9)]
    this [OF opcode_le15(10)] this [OF opcode_le15(11)] this [OF opcode_le15(12)]
    this [OF opcode_le15(13)] this [OF opcode_le15(14)] this [OF opcode_le15(15)]
  show ?thesis by (simp add: execute_def Let_def)
qed

lemma rr_regA_exact:
  "take_bit 3 (drop_bit 8 (push_bit 11 k OR push_bit 8 ra OR push_bit 5 rb)) =
   take_bit 3 ((ra::short) OR drop_bit 3 rb)"
  by (rule bit_word_eqI) (auto simp: bit_simps)

lemma trunc_ri:
  "op_regA (enc_ri c ra v) = ra AND 0x0007"
  "op_data (enc_ri c ra v) = v AND 0x00ff"
  "op_addr (enc_ri c ra v) = v AND 0x00ff"
  by (simp_all only: op_regA_eq op_data_eq op_addr_eq enc_ri_eq ri_regA ri_low and7 and255)

lemma trunc_rr:
  "op_regB (enc_rr c ra rb) = rb AND 0x0007"
  "op_regA (enc_rr c ra rb) = (ra OR drop_bit 3 rb) AND 0x0007"
  by (simp_all only: op_regA_eq op_regB_eq enc_rr_eq rr_regB rr_regA_exact and7)

lemma trunc_rr_legal_rb:
  assumes "rb \<le> 7"
  shows "op_regA (enc_rr c ra rb) = ra AND 0x0007"
proof -
  have "op_regA (enc_rr c ra (take_bit 3 rb)) = take_bit 3 ra"
    by (simp only: op_regA_eq enc_rr_eq rr_regA)
  then show ?thesis by (simp only: le7 [OF assms] and7)
qed

lemma trunc_r: "op_regA (enc_rr c ra 0) = ra AND 0x0007"
  by (rule trunc_rr_legal_rb) simp

section \<open>The claims\<close>

text \<open>
  Claim C2. For every legal operand tuple (register numbers \<open>ra\<close>, \<open>rb\<close> in 0..7, an
  immediate or address \<open>v\<close> in 0..255) and each of the sixteen encoders, the decoders
  give back what was encoded: \<open>op_code\<close> the opcode, \<open>op_regA\<close> and \<open>op_regB\<close> the
  register numbers, \<open>op_data\<close> and \<open>op_addr\<close> the low byte.
\<close>

theorem codec_round_trip:
  assumes "ra \<le> 7" and "rb \<le> 7" and "v \<le> 255"
  shows
   "(promote (op_code (mov ra rb)) = MOV \<and> op_regA (mov ra rb) = ra \<and> op_regB (mov ra rb) = rb) \<and>
    (promote (op_code (add ra rb)) = ADD \<and> op_regA (add ra rb) = ra \<and> op_regB (add ra rb) = rb) \<and>
    (promote (op_code (sub ra rb)) = SUB \<and> op_regA (sub ra rb) = ra \<and> op_regB (sub ra rb) = rb) \<and>
    (promote (op_code (and_enc ra rb)) = AND_op \<and> op_regA (and_enc ra rb) = ra \<and>
       op_regB (and_enc ra rb) = rb) \<and>
    (promote (op_code (or_enc ra rb)) = OR_op \<and> op_regA (or_enc ra rb) = ra \<and>
       op_regB (or_enc ra rb) = rb) \<and>
    (promote (op_code (sl ra)) = SL \<and> op_regA (sl ra) = ra) \<and>
    (promote (op_code (sr ra)) = SR \<and> op_regA (sr ra) = ra) \<and>
    (promote (op_code (sra ra)) = SRA \<and> op_regA (sra ra) = ra) \<and>
    (promote (op_code (ldl ra v)) = LDL \<and> op_regA (ldl ra v) = ra \<and> op_data (ldl ra v) = v) \<and>
    (promote (op_code (ldh ra v)) = LDH \<and> op_regA (ldh ra v) = ra \<and> op_data (ldh ra v) = v) \<and>
    (promote (op_code (cmp ra rb)) = CMP \<and> op_regA (cmp ra rb) = ra \<and> op_regB (cmp ra rb) = rb) \<and>
    (promote (op_code (je v)) = JE \<and> op_addr (je v) = v) \<and>
    (promote (op_code (jmp v)) = JMP \<and> op_addr (jmp v) = v) \<and>
    (promote (op_code (ld ra v)) = LD \<and> op_regA (ld ra v) = ra \<and> op_addr (ld ra v) = v) \<and>
    (promote (op_code (st ra v)) = ST \<and> op_regA (st ra v) = ra \<and> op_addr (st ra v) = v) \<and>
    promote (op_code hlt) = HLT"
proof -
  have z: "(0::short) \<le> 7" by simp
  have v: "take_bit 8 v = v" using assms(3) by (rule le255)
  note rr = rt_rr [OF _ assms(1) assms(2)]
  note r = rt_rr [OF _ assms(1) z]
  note ri = rt_ri [OF _ assms(1), of _ v, unfolded v]
  note i = rt_ri [OF _ z, of _ v, unfolded v]
  note h = rt_rr(1) [OF opcode_le15(16) z z]
  show ?thesis
    unfolding encoder_layout
    by (intro conjI rr r ri i h opcode_le15)
qed

theorem codec_round_trip_witness:
  "(3::short) \<le> 7 \<and> (5::short) \<le> 7 \<and> (200::short) \<le> 255 \<and>
   promote (op_code (mov 3 5)) = MOV \<and> op_regA (mov 3 5) = 3 \<and> op_regB (mov 3 5) = 5 \<and>
   op_data (ldl 3 200) = 200 \<and> op_addr (st 3 200) = 200 \<and> promote (op_code hlt) = HLT"
  using codec_round_trip [of 3 5 200] by simp

text \<open>
  Claim C3. The claim says that SR is a logical, zero-filling shift and that the
  program \<open>LDH REG0,0x80; LDL REG0,0x00; SR REG0; HLT\<close> leaves \<open>reg[0] = 0x4000\<close>.
  The code shifts the signed \<open>short\<close> (\<open>execute_SR\<close>): the program halts with
  \<open>reg[0] = 0xC000\<close>.
\<close>

theorem sr_program_result:
  "\<exists>t. run (load [ldh REG0 0x80, ldl REG0 0x00, sr REG0, hlt]) = Some (Inr t) \<and>
       reg t ! 0 = 0xC000 \<and> reg t ! 0 \<noteq> 0x4000"
proof -
  have "case run (load [ldh REG0 0x80, ldl REG0 0x00, sr REG0, hlt]) of
          Some (Inr t) \<Rightarrow> reg t ! 0 = 0xC000 \<and> reg t ! 0 \<noteq> 0x4000
        | _ \<Rightarrow> False"
    by code_simp
  then show ?thesis by (auto split: option.splits sum.splits)
qed

text \<open>
  Claim C4. Executing SRA stores \<open>(reg[A] & 0x8000) | (reg[A] >> 1)\<close> with the
  shift zero-filling, for every register value, and the program
  \<open>LDH REG0,0x80; LDL REG0,0x00; SRA REG0; HLT\<close> leaves \<open>reg[0] = 0xC000\<close>.
\<close>

theorem sra_semantics:
  "(wf s \<and> promote (op_code (ir s)) = SRA \<longrightarrow>
      execute s = Inr (s\<lparr>reg := (reg s)[nat (sint (op_regA (ir s))) :=
        (reg s ! nat (sint (op_regA (ir s))) AND 0x8000) OR
        drop_bit 1 (reg s ! nat (sint (op_regA (ir s))))]\<rparr>)) \<and>
   (\<exists>t. run (load [ldh REG0 0x80, ldl REG0 0x00, sra REG0, hlt]) = Some (Inr t) \<and>
        reg t ! 0 = 0xC000)"
proof -
  have "case run (load [ldh REG0 0x80, ldl REG0 0x00, sra REG0, hlt]) of
          Some (Inr t) \<Rightarrow> reg t ! 0 = 0xC000 | _ \<Rightarrow> False"
    by code_simp
  then have "\<exists>t. run (load [ldh REG0 0x80, ldl REG0 0x00, sra REG0, hlt]) = Some (Inr t) \<and>
        reg t ! 0 = 0xC000"
    by (auto split: option.splits sum.splits)
  then show ?thesis using execute_SRA [of s] by blast
qed

theorem sra_semantics_witness:
  "wf ((load [])\<lparr>reg := [0x8001, 0, 0, 0, 0, 0, 0, 0], ir := sra REG0\<rparr>) \<and>
   promote (op_code (sra REG0)) = SRA \<and>
   execute ((load [])\<lparr>reg := [0x8001, 0, 0, 0, 0, 0, 0, 0], ir := sra REG0\<rparr>) =
     Inr ((load [])\<lparr>reg := [0xC000, 0, 0, 0, 0, 0, 0, 0], ir := sra REG0\<rparr>)"
proof -
  let ?s = "(load [])\<lparr>reg := [0x8001, 0, 0, 0, 0, 0, 0, 0], ir := sra REG0\<rparr>"
  have w: "wf ?s" by (simp add: wf_def load_def power_on_def)
  have c: "promote (op_code (ir ?s)) = SRA" by code_simp
  have a: "nat (sint (op_regA (ir ?s))) = 0" by code_simp
  have v: "((0x8001::short) AND 0x8000) OR drop_bit 1 0x8001 = 0xC000" by simp
  from sra_semantics [of ?s] w c have
    "execute ?s = Inr (?s\<lparr>reg := (reg ?s)[nat (sint (op_regA (ir ?s))) :=
        (reg ?s ! nat (sint (op_regA (ir ?s))) AND 0x8000) OR
        drop_bit 1 (reg ?s ! nat (sint (op_regA (ir ?s))))]\<rparr>)"
    by blast
  then have "execute ?s = Inr ((load [])\<lparr>reg := [0xC000, 0, 0, 0, 0, 0, 0, 0], ir := sra REG0\<rparr>)"
    unfolding a by (simp add: v)
  with w c show ?thesis by simp
qed

text \<open>
  Claim C5. Only CMP changes the equality flag. On a cycle that fetches the word
  \<open>ir\<close>, the flag afterwards is the flag before unless the opcode of \<open>ir\<close> is CMP; then
  it is 1 if \<open>reg[A] = reg[B]\<close> and 0 otherwise.
\<close>

theorem flag_eq_only_cmp:
  assumes "wf s" and "cycle s = Inr s'"
  shows "ir s' = rom s ! nat (sint (pc s)) \<and>
    flag_eq s' =
      (if promote (op_code (ir s')) = CMP
       then (if reg s ! nat (sint (op_regA (ir s'))) = reg s ! nat (sint (op_regB (ir s')))
             then 1 else 0)
       else flag_eq s)"
  using cycle_Inr(2) [OF assms] cycle_flag [OF assms] by (rule conjI)

theorem flag_eq_only_cmp_witness:
  "wf (load [cmp REG0 REG1]) \<and>
   cycle (load [cmp REG0 REG1]) =
     Inr ((load [cmp REG0 REG1])\<lparr>ir := cmp REG0 REG1, pc := 1, flag_eq := 1\<rparr>) \<and>
   flag_eq ((load [cmp REG0 REG1])\<lparr>ir := cmp REG0 REG1, pc := 1, flag_eq := 1\<rparr>) =
     (if promote (op_code (cmp REG0 REG1)) = CMP
      then (if reg (load [cmp REG0 REG1]) ! nat (sint (op_regA (cmp REG0 REG1))) =
               reg (load [cmp REG0 REG1]) ! nat (sint (op_regB (cmp REG0 REG1)))
            then 1 else 0)
      else flag_eq (load [cmp REG0 REG1]))"
proof -
  have c: "cycle (load [cmp REG0 REG1]) =
     Inr ((load [cmp REG0 REG1])\<lparr>ir := cmp REG0 REG1, pc := 1, flag_eq := 1\<rparr>)"
    by code_simp
  from flag_eq_only_cmp [OF wf_load c] wf_load [of "[cmp REG0 REG1]"] c
  show ?thesis by (simp cong: if_cong)
qed

text \<open>
  Claim C6. Every cycle advances the program counter by one before the \<open>switch\<close>,
  whatever the opcode; only JMP and a JE with the flag set then replace it, by the
  address field (0..255) of the instruction. A run that leaves the loop has fetched HLT
  from some ROM address \<open>p\<close>, and its final program counter is \<open>p + 1\<close>.
\<close>

theorem pc_discipline:
  assumes "wf s"
  shows
   "(\<forall>s'. cycle s = Inr s' \<longrightarrow>
       pc s' =
         (if promote (op_code (ir s')) = JMP \<or>
             promote (op_code (ir s')) = JE \<and> flag_eq s = 1
          then op_addr (ir s') else pc s + 1) \<and>
       sint (pc s + 1) = sint (pc s) + 1 \<and>
       0 \<le> sint (op_addr (ir s')) \<and> sint (op_addr (ir s')) \<le> 255) \<and>
    (\<forall>t. run s = Some (Inr t) \<longrightarrow>
       promote (op_code (ir t)) = HLT \<and>
       (\<exists>p. 0 \<le> p \<and> p < 256 \<and> ir t = rom s ! nat p \<and> sint (pc t) = p + 1))"
proof (intro conjI allI impI)
  fix s' assume c: "cycle s = Inr s'"
  show "pc s' =
         (if promote (op_code (ir s')) = JMP \<or>
             promote (op_code (ir s')) = JE \<and> flag_eq s = 1
          then op_addr (ir s') else pc s + 1)"
    by (rule cycle_pc [OF assms c])
  have "0 \<le> sint (pc s)" "sint (pc s) < 256"
    using cycle_Inr(1) [OF assms c] wf_rom_bounds [OF assms, of "pc s"] by simp_all
  then show "sint (pc s + 1) = sint (pc s) + 1" by (rule sint_pc_advance)
  show "0 \<le> sint (op_addr (ir s'))" "sint (op_addr (ir s')) \<le> 255"
    using addr_range [of "ir s'"] by simp_all
next
  fix t assume r: "run s = Some (Inr t)"
  from run_result [OF r assms]
  show "promote (op_code (ir t)) = HLT"
    and "\<exists>p. 0 \<le> p \<and> p < 256 \<and> ir t = rom s ! nat p \<and> sint (pc t) = p + 1"
    by simp_all
qed

theorem pc_discipline_witness:
  "wf (load [jmp 2, 0, hlt]) \<and>
   cycle (load [jmp 2, 0, hlt]) = Inr ((load [jmp 2, 0, hlt])\<lparr>ir := jmp 2, pc := 2\<rparr>) \<and>
   run (load [jmp 2, 0, hlt]) = Some (Inr ((load [jmp 2, 0, hlt])\<lparr>ir := hlt, pc := 3\<rparr>)) \<and>
   (\<exists>p. 0 \<le> p \<and> p < 256 \<and> hlt = rom (load [jmp 2, 0, hlt]) ! nat p \<and>
        sint (3::short) = p + 1)"
proof -
  let ?s = "load [jmp 2, 0, hlt]"
  have c: "cycle ?s = Inr (?s\<lparr>ir := jmp 2, pc := 2\<rparr>)" by code_simp
  have r: "run ?s = Some (Inr (?s\<lparr>ir := hlt, pc := 3\<rparr>))" by code_simp
  from pc_discipline [OF wf_load, of "[jmp 2, 0, hlt]"] r
  have "\<exists>p. 0 \<le> p \<and> p < 256 \<and> ir (?s\<lparr>ir := hlt, pc := 3\<rparr>) = rom ?s ! nat p \<and>
        sint (pc (?s\<lparr>ir := hlt, pc := 3\<rparr>)) = p + 1"
    by blast
  with wf_load [of "[jmp 2, 0, hlt]"] c r show ?thesis by simp
qed

text \<open>
  Claim C7. The claim says that every encoder truncates a register number to three
  bits before packing. The encoders pack \<open>ra << 8\<close> and \<open>rb << 5\<close> unmasked: register
  number 8 given as \<open>rb\<close> sets the low bit of the regA field, and given as \<open>ra\<close> it
  changes the opcode.
\<close>

theorem register_not_truncated:
  "op_regA (mov 0 8) \<noteq> (0 AND 7) \<and> promote (op_code (mov 8 0)) \<noteq> MOV"
  by code_simp

text \<open>
  Claim C7, amended. Every encoder that takes an immediate or an address masks it to
  eight bits before packing, and for every operand tuple, in range or not, decoding
  gives the truncated operand fields: the low byte is \<open>v & 0xff\<close>, regB is
  \<open>rb & 7\<close>, and regA is \<open>ra & 7\<close> for the immediate and the one-register encoders.
  Register numbers are packed as they are, so for the two-register encoders regA is
  \<open>(ra | (rb >> 3)) & 7\<close>, which is \<open>ra & 7\<close> whenever \<open>rb\<close> is in 0..7. The
  opcode of JE and JMP always decodes as encoded, that of the other immediate encoders
  whenever \<open>ra\<close> is in 0..7.
\<close>

theorem operand_fields_truncated:
  "(op_data (ldl ra v) = v AND 0x00ff \<and> op_data (ldh ra v) = v AND 0x00ff \<and>
    op_addr (je v) = v AND 0x00ff \<and> op_addr (jmp v) = v AND 0x00ff \<and>
    op_addr (ld ra v) = v AND 0x00ff \<and> op_addr (st ra v) = v AND 0x00ff) \<and>
   (op_regA (ldl ra v) = ra AND 0x0007 \<and> op_regA (ldh ra v) = ra AND 0x0007 \<and>
    op_regA (ld ra v) = ra AND 0x0007 \<and> op_regA (st ra v) = ra AND 0x0007 \<and>
    op_regA (sl ra) = ra AND 0x0007 \<and> op_regA (sr ra) = ra AND 0x0007 \<and>
    op_regA (sra ra) = ra AND 0x0007) \<and>
   (op_regB (mov ra rb) = rb AND 0x0007 \<and> op_regB (add ra rb) = rb AND 0x0007 \<and>
    op_regB (sub ra rb) = rb AND 0x0007 \<and> op_regB (and_enc ra rb) = rb AND 0x0007 \<and>
    op_regB (or_enc ra rb) = rb AND 0x0007 \<and> op_regB (cmp ra rb) = rb AND 0x0007) \<and>
   (op_regA (mov ra rb) = (ra OR drop_bit 3 rb) AND 0x0007 \<and>
    op_regA (add ra rb) = (ra OR drop_bit 3 rb) AND 0x0007 \<and>
    op_regA (sub ra rb) = (ra OR drop_bit 3 rb) AND 0x0007 \<and>
    op_regA (and_enc ra rb) = (ra OR drop_bit 3 rb) AND 0x0007 \<and>
    op_regA (or_enc ra rb) = (ra OR drop_bit 3 rb) AND 0x0007 \<and>
    op_regA (cmp ra rb) = (ra OR drop_bit 3 rb) AND 0x0007) \<and>
   (rb \<le> 7 \<longrightarrow>
      op_regA (mov ra rb) = ra AND 0x0007 \<and> op_regA (add ra rb) = ra AND 0x0007 \<and>
      op_regA (sub ra rb) = ra AND 0x0007 \<and> op_regA (and_enc ra rb) = ra AND 0x0007 \<and>
      op_regA (or_enc ra rb) = ra AND 0x0007 \<and> op_regA (cmp ra rb) = ra AND 0x0007) \<and>
   (promote (op_code (je v)) = JE \<and> promote (op_code (jmp v)) = JMP) \<and>
   (ra \<le> 7 \<longrightarrow>
      promote (op_code (ldl ra v)) = LDL \<and> promote (op_code (ldh ra v)) = LDH \<and>
      promote (op_code (ld ra v)) = LD \<and> promote (op_code (st ra v)) = ST)"
proof -
  have z: "(0::short) \<le> 7" by simp
  note j = rt_ri(1) [OF _ z]
  show ?thesis
    unfolding encoder_layout
    by (intro conjI impI trunc_ri trunc_rr trunc_r trunc_rr_legal_rb rt_ri(1) j opcode_le15)
qed

theorem operand_fields_truncated_witness:
  "(5::short) \<le> 7 \<and> op_regA (mov 11 5) = 3 \<and> op_regB (mov 11 13) = 5 \<and>
   op_regA (ldl 11 0x1234) = 3 \<and> op_data (ldl 11 0x1234) = 0x34 \<and>
   (3::short) \<le> 7 \<and> promote (op_code (st 3 (- 1))) = ST \<and> op_addr (st 3 (- 1)) = 0xff"
  using operand_fields_truncated [of 11 "0x1234" 5] operand_fields_truncated [of 11 "0x1234" 13]
    operand_fields_truncated [of 3 "- 1" 5]
  by simp

text \<open>
  Claim C8. The claim says that no fetch \<open>rom[pc]\<close> uses an index outside 0..255 and
  that an index out of bounds is rejected. Nothing in the source checks an index. The
  ROM holding \<open>JMP 255\<close> and zeros executes the word at 255 (a MOV) and then fetches
  \<open>rom[256]\<close>.
\<close>

theorem fetch_past_rom: "run (load [jmp 255]) = Some (Inl RomIndex)"
  by code_simp

text \<open>
  Claim C8, amended. On a machine with the declared array sizes every access to the
  register file and to RAM is in bounds, in one cycle and over a whole run. The fetch is
  in bounds exactly when \<open>0 \<le> pc \<le> 255\<close> at the start of the cycle; a cycle whose
  fetch is in bounds leaves \<open>pc\<close> in 0..256, and no check stops the fetch at 256.
\<close>

theorem only_fetch_leaves_bounds:
  assumes "wf s"
  shows
   "cycle s \<noteq> Inl RegIndex \<and> cycle s \<noteq> Inl RamIndex \<and>
    run s \<noteq> Some (Inl RegIndex) \<and> run s \<noteq> Some (Inl RamIndex) \<and>
    (cycle s = Inl RomIndex) = (sint (pc s) < 0 \<or> 255 < sint (pc s)) \<and>
    (\<forall>s'. cycle s = Inr s' \<longrightarrow> wf s' \<and> 0 \<le> sint (pc s') \<and> sint (pc s') \<le> 256)"
proof -
  have 1: "cycle s \<noteq> Inl RegIndex" "cycle s \<noteq> Inl RamIndex"
    using cycle_Inl [OF assms] by auto
  have 2: "run s \<noteq> Some (Inl RegIndex)" "run s \<noteq> Some (Inl RamIndex)"
    using run_no_fault [OF assms] by auto
  have 3: "(cycle s = Inl RomIndex) = (sint (pc s) < 0 \<or> 255 < sint (pc s))"
  proof (cases "in_bounds (rom s) (pc s)")
    case True
    have "wf (s\<lparr>ir := rom s ! nat (sint (pc s)), pc := pc s + 1\<rparr>)"
      using assms by (simp add: wf_fetch)
    from execute_ok [OF this] have "cycle s \<noteq> Inl RomIndex"
      using cycle_fetch [OF True] by auto
    with True wf_rom_bounds [OF assms, of "pc s"] show ?thesis by simp
  next
    case False
    with cycle_fault [OF False] wf_rom_bounds [OF assms, of "pc s"] show ?thesis
      by (simp add: not_le not_less) linarith
  qed
  have 4: "\<forall>s'. cycle s = Inr s' \<longrightarrow> wf s' \<and> 0 \<le> sint (pc s') \<and> sint (pc s') \<le> 256"
  proof (intro allI impI)
    fix s' assume c: "cycle s = Inr s'"
    show "wf s' \<and> 0 \<le> sint (pc s') \<and> sint (pc s') \<le> 256"
      using cycle_Inr(4) [OF assms c] cycle_pc_range [OF assms c] by simp
  qed
  from 1 2 3 4 show ?thesis by (intro conjI)
qed

theorem only_fetch_leaves_bounds_witness:
  "wf (load [jmp 255]) \<and>
   cycle (load [jmp 255]) = Inr ((load [jmp 255])\<lparr>ir := jmp 255, pc := 255\<rparr>) \<and>
   wf ((load [jmp 255])\<lparr>ir := jmp 255, pc := 255\<rparr>) \<and>
   sint (pc ((load [jmp 255])\<lparr>ir := jmp 255, pc := 255\<rparr>)) \<le> 256 \<and>
   cycle (load [jmp 255]) \<noteq> Inl RegIndex"
proof -
  have c: "cycle (load [jmp 255]) = Inr ((load [jmp 255])\<lparr>ir := jmp 255, pc := 255\<rparr>)"
    by code_simp
  note t = only_fetch_leaves_bounds [OF wf_load, of "[jmp 255]"]
  from t have n: "cycle (load [jmp 255]) \<noteq> Inl RegIndex" by (rule conjunct1)
  from t have "\<forall>s'. cycle (load [jmp 255]) = Inr s' \<longrightarrow>
           wf s' \<and> 0 \<le> sint (pc s') \<and> sint (pc s') \<le> 256"
    by (elim conjE)
  then have "wf ((load [jmp 255])\<lparr>ir := jmp 255, pc := 255\<rparr>) \<and>
      0 \<le> sint (pc ((load [jmp 255])\<lparr>ir := jmp 255, pc := 255\<rparr>)) \<and>
      sint (pc ((load [jmp 255])\<lparr>ir := jmp 255, pc := 255\<rparr>)) \<le> 256"
    using c by blast
  with n c wf_load [of "[jmp 255]"] show ?thesis by simp
qed

text \<open>
  Claim C9. The claim says that an instruction word with opcode field 16..31 aborts
  the run. The \<open>default\<close> branch of the \<open>switch\<close> is empty: the word \<open>0x8000\<close>
  (opcode field 16) only advances the program counter, and the run goes on to the HLT
  behind it.
\<close>

theorem unknown_opcode_runs_on:
  "drop_bit 11 (0x8000 :: short) = 16 \<and>
   cycle (load [0x8000, hlt]) = Inr ((load [0x8000, hlt])\<lparr>ir := 0x8000, pc := 1\<rparr>) \<and>
   run (load [0x8000, hlt]) = Some (Inr ((load [0x8000, hlt])\<lparr>ir := hlt, pc := 2\<rparr>))"
  by code_simp

text \<open>
  Claim C9, amended. Executing an instruction word whose opcode field is in 16..31 is a
  no-operation: the cycle stores the word in \<open>ir\<close>, advances \<open>pc\<close> by one, changes
  nothing else and reports no error, and the loop continues (the opcode is not HLT).
\<close>

theorem unknown_opcode_is_nop:
  assumes "in_bounds (rom s) (pc s)" and "rom s ! nat (sint (pc s)) = w"
    and "16 \<le> drop_bit 11 w"
  shows "cycle s = Inr (s\<lparr>ir := w, pc := pc s + 1\<rparr>) \<and> promote (op_code w) \<noteq> HLT"
proof -
  have b: "bit w 15" using assms(3) by (rule field_ge_16)
  have "execute (s\<lparr>ir := w, pc := pc s + 1\<rparr>) = Inr (s\<lparr>ir := w, pc := pc s + 1\<rparr>)"
    using b by (intro execute_default) simp
  then have "cycle s = Inr (s\<lparr>ir := w, pc := pc s + 1\<rparr>)"
    using cycle_fetch [OF assms(1)] assms(2) by simp
  moreover have "promote (op_code w) \<noteq> HLT"
    using b opcode_le15(16) by (rule unknown_opcode)
  ultimately show ?thesis ..
qed

theorem unknown_opcode_is_nop_witness:
  "in_bounds (rom (load [0xF800])) (pc (load [0xF800])) \<and>
   rom (load [0xF800]) ! nat (sint (pc (load [0xF800]))) = 0xF800 \<and>
   16 \<le> drop_bit 11 (0xF800 :: short) \<and>
   cycle (load [0xF800]) = Inr ((load [0xF800])\<lparr>ir := 0xF800, pc := pc (load [0xF800]) + 1\<rparr>)"
proof -
  have 1: "in_bounds (rom (load [0xF800])) (pc (load [0xF800]))" by code_simp
  have 2: "rom (load [0xF800]) ! nat (sint (pc (load [0xF800]))) = 0xF800" by code_simp
  have 3: "16 \<le> drop_bit 11 (0xF800 :: short)" by code_simp
  from unknown_opcode_is_nop [OF 1 2 3] 1 2 3 show ?thesis by simp
qed

text \<open>
  Claim C10. For every instruction word the decoded register numbers lie in 0..7 and
  the decoded address in 0..255. Hence the execute step of a machine with the declared
  array sizes never leaves the register file or RAM, and no run ends in an invalid
  register index or RAM address.
\<close>

theorem decoded_indices_in_bounds:
  "(0 \<le> sint (op_regA w) \<and> sint (op_regA w) \<le> 7) \<and>
   (0 \<le> sint (op_regB w) \<and> sint (op_regB w) \<le> 7) \<and>
   (0 \<le> sint (op_addr w) \<and> sint (op_addr w) \<le> 255) \<and>
   (wf s \<longrightarrow> (\<exists>s'. execute s = Inr s') \<and>
      run s \<noteq> Some (Inl RegIndex) \<and> run s \<noteq> Some (Inl RamIndex))"
proof -
  have "run s \<noteq> Some (Inl RegIndex) \<and> run s \<noteq> Some (Inl RamIndex)" if "wf s"
    using run_no_fault [OF that] by auto
  then show ?thesis
    using regA_range [of w] regB_range [of w] addr_range [of w] execute_ok [of s] by simp
qed

theorem decoded_indices_in_bounds_witness:
  "wf ((load [])\<lparr>ir := st REG7 255\<rparr>) \<and>
   (\<exists>s'. execute ((load [])\<lparr>ir := st REG7 255\<rparr>) = Inr s') \<and>
   sint (op_regA (st REG7 255)) \<le> 7 \<and> sint (op_addr (st REG7 255)) \<le> 255"
proof -
  have w: "wf ((load [])\<lparr>ir := st REG7 255\<rparr>)"
    by (simp add: wf_def load_def power_on_def)
  from decoded_indices_in_bounds [of "st REG7 255" "(load [])\<lparr>ir := st REG7 255\<rparr>"] w
  show ?thesis by simp
qed

text \<open>
  Claim C1. \<open>main\<close>, that is the interpreter on the ROM written by \<open>assembler\<close>,
  leaves the loop on the HLT stored at ROM address 14, with \<open>ram[64] = 55\<close>,
  \<open>reg[0] = 55\<close>, \<open>reg[2] = 10\<close>, the equality flag 1 and the program counter 15.
\<close>

theorem sum_program_result:
  "\<exists>t. main = Some (Inr t) \<and> ir t = hlt \<and> rom t ! 14 = hlt \<and> ram t ! 64 = 55 \<and>
       reg t ! 0 = 55 \<and> reg t ! 2 = 10 \<and> flag_eq t = 1 \<and> pc t = 15"
proof -
  have "case main of
          Some (Inr t) \<Rightarrow> ir t = hlt \<and> rom t ! 14 = hlt \<and> ram t ! 64 = 55 \<and>
            reg t ! 0 = 55 \<and> reg t ! 2 = 10 \<and> flag_eq t = 1 \<and> pc t = 15
        | _ \<Rightarrow> False"
    by code_simp
  then show ?thesis by (auto split: option.splits sum.splits)
qed

end
